theory Spec2Isabelle
  imports Main "HOL-Library.Word"
begin

section \<open>REV address utilities (src/src/rev-address.ts)\<close>

text \<open>
  The module derives, along a one-way chain, a REV address from a mnemonic, a private key,
  a public key or an Ethereum address, and checks the checksum of a REV address.

  Strings are lists of 8-bit characters (every text the module reads or writes is ASCII),
  byte arrays (\<open>Uint8Array\<close>, \<open>Buffer\<close>) are lists of 8-bit words. A function of the
  module that may return \<open>undefined\<close> returns an \<open>option\<close>, one that throws returns a sum
  whose left side is the error. A call into a library is a function that returns what
  its interface says; an exception raised inside a library is not part of the model.
\<close>

type_synonym byte = "8 word"

subsection \<open>String helpers of the language\<close>

text \<open>\<open>s.replace(/^0x/, '')\<close>: one leading, lowercase \<open>0x\<close> is removed.\<close>

fun strip0x :: "string \<Rightarrow> string" where
  "strip0x (a # b # rest) = (if a = CHR ''0'' \<and> b = CHR ''x'' then rest else a # b # rest)"
| "strip0x s = s"

text \<open>
  \<open>s.trim()\<close>: white space is removed at both ends. Of the white space of the language,
  the characters below are those an 8-bit character can hold (tab, line feed, vertical
  tab, form feed, carriage return, space, no-break space).
\<close>

definition is_ws :: "char \<Rightarrow> bool" where
  "is_ws c = (c \<in> set [CHR 0x09, CHR 0x0A, CHR 0x0B, CHR 0x0C, CHR 0x0D, CHR 0x20, CHR 0xA0])"

definition trim :: "string \<Rightarrow> string" where
  "trim s = rev (dropWhile is_ws (rev (dropWhile is_ws s)))"

text \<open>\<open>s.slice(0, -k)\<close> and \<open>s.slice(-k)\<close>; both clamp at the start of the string.\<close>

definition slice_init :: "nat \<Rightarrow> 'a list \<Rightarrow> 'a list" where
  "slice_init k s = take (length s - k) s"

definition slice_last :: "nat \<Rightarrow> 'a list \<Rightarrow> 'a list" where
  "slice_last k s = drop (length s - k) s"

subsection \<open>The codec module (\<open>./codecs\<close>)\<close>

text \<open>
  Modelled from the spec: the codec module \<open>./codecs\<close> (\<open>encodeBase16\<close>, \<open>decodeBase16\<close>,
  \<open>encodeBase58\<close>, \<open>decodeBase58safe\<close>) is imported by the source and is not part of it.
  The spec calls it a codec for base16 (hex) and base58, the latter over an alphabet
  without the visually ambiguous characters, and says that decoding base58 fails on a
  character outside the alphabet. Hex is written in lowercase and read in either case.
  The spec does not say what \<open>decodeBase16\<close> does with a character that is no hex digit
  or with a last character that has no partner; here the one reads as 0 and the other is
  dropped, and no claim below rests on either choice.
\<close>

definition index_of :: "'a list \<Rightarrow> 'a \<Rightarrow> nat" where
  "index_of xs c = length (takeWhile (\<lambda>a. a \<noteq> c) xs)"

definition hex_digits :: string where
  "hex_digits = ''0123456789abcdef''"

definition hex_upper :: string where
  "hex_upper = ''0123456789ABCDEF''"

definition hex_char :: "nat \<Rightarrow> char" where
  "hex_char d = hex_digits ! d"

definition hex_val :: "char \<Rightarrow> nat" where
  "hex_val c =
     (if c \<in> set hex_digits then index_of hex_digits c
      else if c \<in> set hex_upper then index_of hex_upper c
      else 0)"

definition is_hex_char :: "char \<Rightarrow> bool" where
  "is_hex_char c = (c \<in> set hex_digits \<or> c \<in> set hex_upper)"

definition is_lower_hex_char :: "char \<Rightarrow> bool" where
  "is_lower_hex_char c = (c \<in> set hex_digits)"

definition is_hex :: "string \<Rightarrow> bool" where
  "is_hex s = list_all is_hex_char s"

definition is_lower_hex :: "string \<Rightarrow> bool" where
  "is_lower_hex s = list_all is_lower_hex_char s"

text \<open>Modelled from the spec: \<open>encodeBase16\<close> of \<open>./codecs\<close>, two lowercase hex digits a byte.\<close>

definition encodeBase16 :: "byte list \<Rightarrow> string" where
  "encodeBase16 bs = concat (map (\<lambda>b. [hex_char (unat b div 16), hex_char (unat b mod 16)]) bs)"

text \<open>Modelled from the spec: \<open>decodeBase16\<close> of \<open>./codecs\<close>, a byte from every two hex digits.\<close>

fun decodeBase16 :: "string \<Rightarrow> byte list" where
  "decodeBase16 (a # b # rest) = of_nat (hex_val a * 16 + hex_val b) # decodeBase16 rest"
| "decodeBase16 s = []"

text \<open>Numbers in a positional system, most significant digit first.\<close>

definition from_base :: "nat \<Rightarrow> nat list \<Rightarrow> nat" where
  "from_base b ds = foldl (\<lambda>acc d. acc * b + d) 0 ds"

function to_base :: "nat \<Rightarrow> nat \<Rightarrow> nat list" where
  "to_base b n = (if b < 2 \<or> n = 0 then [] else to_base b (n div b) @ [n mod b])"
  by pat_completeness auto
termination
  by (relation "measure snd") auto

definition b58_alphabet :: string where
  "b58_alphabet = ''123456789ABCDEFGHJKLMNPQRSTUVWXYZabcdefghijkmnopqrstuvwxyz''"

definition b58_index :: "char \<Rightarrow> nat" where
  "b58_index c = index_of b58_alphabet c"

text \<open>
  Modelled from the spec: base58 of a byte array. Every leading zero byte is written as
  the first letter of the alphabet, the rest is the number the bytes spell, in base 58.
\<close>

definition base58_encode :: "byte list \<Rightarrow> string" where
  "base58_encode bs =
     replicate (length (takeWhile (\<lambda>b. b = 0) bs)) (CHR ''1'') @
     map (\<lambda>d. b58_alphabet ! d) (to_base 58 (from_base 256 (map unat bs)))"

definition base58_decode :: "string \<Rightarrow> byte list option" where
  "base58_decode s =
     (if list_all (\<lambda>c. c \<in> set b58_alphabet) s
      then Some (replicate (length (takeWhile (\<lambda>c. c = CHR ''1'') s)) 0 @
                 map of_nat (to_base 256 (from_base 58 (map b58_index s))))
      else None)"

text \<open>Modelled from the spec: \<open>encodeBase58\<close> and \<open>decodeBase58safe\<close> of \<open>./codecs\<close>. The first
  takes the bytes as a hex string, as its callers pass them; the second returns
  \<open>undefined\<close> where decoding fails.\<close>

definition encodeBase58 :: "string \<Rightarrow> string" where
  "encodeBase58 hexStr = base58_encode (decodeBase16 hexStr)"

definition decodeBase58safe :: "string \<Rightarrow> byte list option" where
  "decodeBase58safe s = base58_decode s"

text \<open>Digit lists that spell a number in one way only: no leading zero digit.\<close>

definition canonical :: "nat \<Rightarrow> nat list \<Rightarrow> bool" where
  "canonical b ds = (list_all (\<lambda>d. d < b) ds \<and> (ds = [] \<or> hd ds \<noteq> 0))"

subsection \<open>The libraries the module calls\<close>

text \<open>
  The hash functions (js-sha3, blakejs), the curve (elliptic), BIP-39 (bip39) and the
  BIP-32 key tree (hdkey) are libraries outside the repository. The module is modelled
  over any implementation of them: a record of functions, one per library call the
  source makes. The hash libraries return the digest as lowercase hex; the digest itself
  is the parameter. \<open>bip39.generateMnemonic()\<close> reads 16 bytes of system randomness; they
  are its argument here. \<open>'n\<close> is the type of the nodes of the key tree.
\<close>

record 'n libs =
  keccak256_digest :: "byte list \<Rightarrow> byte list"
  blake2b_digest :: "byte list \<Rightarrow> nat \<Rightarrow> byte list"
  ec_getPublic :: "string \<Rightarrow> string"
  bip39_generateMnemonic :: "byte list \<Rightarrow> string"
  bip39_validateMnemonic :: "string \<Rightarrow> bool"
  bip39_mnemonicToSeedSync :: "string \<Rightarrow> byte list"
  hd_fromMasterSeed :: "byte list \<Rightarrow> 'n"
  hd_derive :: "'n \<Rightarrow> string \<Rightarrow> 'n"
  hd_privateKey :: "'n \<Rightarrow> byte list option"

text \<open>\<open>keccak256(bytes)\<close> of js-sha3 and \<open>blake2bHex(bytes, key, outlen)\<close> of blakejs (the
  source passes no key).\<close>

definition keccak256 :: "'n libs \<Rightarrow> byte list \<Rightarrow> string" where
  "keccak256 L bs = encodeBase16 (keccak256_digest L bs)"

definition blake2bHex :: "'n libs \<Rightarrow> byte list \<Rightarrow> nat \<Rightarrow> string" where
  "blake2bHex L bs outlen = encodeBase16 (blake2b_digest L bs outlen)"

subsection \<open>The wallet descriptor\<close>

text \<open>
  \<open>interface RevAddress\<close>. At run time it is an object whose properties may be missing,
  also \<open>revAddr\<close>, which the interface requires: both wallet constructors cast a result that
  may be \<open>undefined\<close>. Every field is therefore optional here.
\<close>

record RevAddress =
  revAddr :: "string option"
  ethAddr :: "string option"
  pubKey :: "string option"
  privKey :: "string option"
  mnemonic :: "string option"

definition no_fields :: RevAddress where
  "no_fields = \<lparr>revAddr = None, ethAddr = None, pubKey = None, privKey = None, mnemonic = None\<rparr>"

text \<open>\<open>{ ...obj, ...src }\<close>: the properties \<open>src\<close> has replace those of \<open>obj\<close>; spreading
  \<open>undefined\<close> adds nothing.\<close>

definition over :: "'a option \<Rightarrow> 'a option \<Rightarrow> 'a option" where
  "over old new = (case new of Some v \<Rightarrow> Some v | None \<Rightarrow> old)"

definition spread :: "RevAddress \<Rightarrow> RevAddress \<Rightarrow> RevAddress" where
  "spread obj src =
     \<lparr>revAddr = over (revAddr obj) (revAddr src),
      ethAddr = over (ethAddr obj) (ethAddr src),
      pubKey = over (pubKey obj) (pubKey src),
      privKey = over (privKey obj) (privKey src),
      mnemonic = over (mnemonic obj) (mnemonic src)\<rparr>"

definition spread_opt :: "RevAddress \<Rightarrow> RevAddress option \<Rightarrow> RevAddress" where
  "spread_opt obj src = (case src of None \<Rightarrow> obj | Some r \<Rightarrow> spread obj r)"

datatype error = Error string

subsection \<open>The address chain\<close>

definition prefix_coinId :: string where
  "prefix_coinId = ''000000''"

definition prefix_version :: string where
  "prefix_version = ''00''"

definition getAddrFromEth :: "'n libs \<Rightarrow> string \<Rightarrow> string option" where
  "getAddrFromEth L ethAddrRaw =
     (let ethAddr = strip0x ethAddrRaw in
      if ethAddr = [] \<or> length ethAddr \<noteq> 40 then None
      else
        let ethHash = keccak256 L (decodeBase16 ethAddr);
            payload = prefix_coinId @ prefix_version @ ethHash;
            checksum = take 8 (blake2bHex L (decodeBase16 payload) 32)
        in Some (encodeBase58 (payload @ checksum)))"

text \<open>A string is truthy unless it is empty: \<open>revAddr ? {revAddr, ethAddr} : undefined\<close>.\<close>

definition getAddrFromPublicKey :: "'n libs \<Rightarrow> string \<Rightarrow> RevAddress option" where
  "getAddrFromPublicKey L publicKeyRaw =
     (let publicKey = strip0x publicKeyRaw in
      if publicKey = [] \<or> length publicKey \<noteq> 130 then None
      else
        let pkHash = keccak256 L (drop 1 (decodeBase16 publicKey));
            ethAddr' = slice_last 40 pkHash
        in case getAddrFromEth L ethAddr' of
             None \<Rightarrow> None
           | Some revAddr' \<Rightarrow>
               if revAddr' \<noteq> []
               then Some (no_fields\<lparr>revAddr := Some revAddr', ethAddr := Some ethAddr'\<rparr>)
               else None)"

definition getAddrFromPrivateKey :: "'n libs \<Rightarrow> string \<Rightarrow> RevAddress option" where
  "getAddrFromPrivateKey L privateKeyRaw =
     (let privateKey = strip0x privateKeyRaw in
      if privateKey = [] \<or> length privateKey \<noteq> 64 then None
      else
        let pubKey' = ec_getPublic L privateKey;
            addr = getAddrFromPublicKey L pubKey'
        in case addr of
             None \<Rightarrow> None
           | Some a \<Rightarrow> Some (spread (no_fields\<lparr>pubKey := Some pubKey'\<rparr>) a))"

subsection \<open>The checksum validator\<close>

definition verifyRevAddr :: "'n libs \<Rightarrow> string \<Rightarrow> bool" where
  "verifyRevAddr L revAddr' =
     (case decodeBase58safe revAddr' of
        None \<Rightarrow> False
      | Some revBytes \<Rightarrow>
          let revHex = encodeBase16 revBytes;
              payload = slice_init 8 revHex;
              checksum = slice_last 8 revHex;
              checksumRef = take 8 (blake2bHex L (decodeBase16 payload) 32)
          in checksum = checksumRef)"

subsection \<open>Wallet construction\<close>

definition hd_path :: string where
  "hd_path = ''m/44'/60'/0'/0/0''"

definition privKeyFromMnemonic :: "'n libs \<Rightarrow> string \<Rightarrow> error + string" where
  "privKeyFromMnemonic L mnemonic' =
     (let seed = bip39_mnemonicToSeedSync L mnemonic';
          hd = hd_fromMasterSeed L seed;
          child = hd_derive L hd hd_path
      in case hd_privateKey L child of
           None \<Rightarrow> Inl (Error ''Unable to derive private key (HD node neutered?)'')
         | Some k \<Rightarrow> Inr (encodeBase16 k))"

text \<open>\<open>rnd\<close> is the randomness \<open>bip39.generateMnemonic()\<close> draws.\<close>

definition newRevAddress :: "'n libs \<Rightarrow> byte list \<Rightarrow> error + RevAddress" where
  "newRevAddress L rnd =
     (let mnemonic' = bip39_generateMnemonic L rnd in
      case privKeyFromMnemonic L mnemonic' of
        Inl e \<Rightarrow> Inl e
      | Inr privKey' \<Rightarrow>
          let addr = getAddrFromPrivateKey L privKey'
          in Inr (spread_opt (no_fields\<lparr>mnemonic := Some mnemonic', privKey := Some privKey'\<rparr>) addr))"

definition revAddressFromMnemonic :: "'n libs \<Rightarrow> string \<Rightarrow> error + RevAddress" where
  "revAddressFromMnemonic L mnemonic' =
     (if \<not> bip39_validateMnemonic L mnemonic' then Inl (Error ''Invalid BIP-39 mnemonic'')
      else
        case privKeyFromMnemonic L mnemonic' of
          Inl e \<Rightarrow> Inl e
        | Inr privKey' \<Rightarrow>
            let addr = getAddrFromPrivateKey L privKey'
            in Inr (spread_opt (no_fields\<lparr>mnemonic := Some mnemonic', privKey := Some privKey'\<rparr>) addr))"

subsection \<open>The type-detecting parser\<close>

definition parseRevAddress :: "'n libs \<Rightarrow> string \<Rightarrow> RevAddress option" where
  "parseRevAddress L text' =
     (let val = trim (strip0x text');
          fromPriv = getAddrFromPrivateKey L val;
          fromPub = getAddrFromPublicKey L val;
          fromEth = getAddrFromEth L val;
          isRev = verifyRevAddr L val
      in if isRev then Some (no_fields\<lparr>revAddr := Some text'\<rparr>)
         else case fromPriv of
           Some r \<Rightarrow> Some (spread (no_fields\<lparr>privKey := Some val\<rparr>) r)
         | None \<Rightarrow>
             (case fromPub of
                Some r \<Rightarrow> Some (spread (no_fields\<lparr>pubKey := Some val\<rparr>) r)
              | None \<Rightarrow>
                  (case fromEth of
                     Some a \<Rightarrow>
                       if a \<noteq> [] then Some (no_fields\<lparr>ethAddr := Some val, revAddr := Some a\<rparr>)
                       else None
                   | None \<Rightarrow> None)))"

subsection \<open>What the libraries promise\<close>

text \<open>
  The facts about the libraries that the theorems below assume, each named where it is
  used. They are the interface the spec lists for the collaborators: both digests have 32
  bytes; a valid secp256k1 private key (64 hex characters that spell a number between 1
  and the group order, exclusive) has an uncompressed public key of 130 lowercase hex
  characters; a private key the key tree derives is a valid one; a generated mnemonic
  passes validation.
\<close>

definition secp256k1_n :: nat where
  "secp256k1_n = 0xFFFFFFFFFFFFFFFFFFFFFFFFFFFFFFFEBAAEDCE6AF48A03BBFD25E8CD0364141"

definition hex_number :: "string \<Rightarrow> nat" where
  "hex_number s = from_base 16 (map hex_val s)"

definition valid_privkey :: "string \<Rightarrow> bool" where
  "valid_privkey k =
     (length k = 64 \<and> is_hex k \<and> 0 < hex_number k \<and> hex_number k < secp256k1_n)"

definition hash_contract :: "'n libs \<Rightarrow> bool" where
  "hash_contract L =
     ((\<forall>bs. length (keccak256_digest L bs) = 32) \<and> (\<forall>bs. length (blake2b_digest L bs 32) = 32))"

definition wf_pubkey :: "string \<Rightarrow> bool" where
  "wf_pubkey p = (length p = 130 \<and> is_lower_hex p)"

definition ec_contract :: "'n libs \<Rightarrow> bool" where
  "ec_contract L = (\<forall>k. valid_privkey k \<longrightarrow> wf_pubkey (ec_getPublic L k))"

definition ec_hex :: "'n libs \<Rightarrow> bool" where
  "ec_hex L = (\<forall>k. is_lower_hex (ec_getPublic L k))"

definition hd_contract :: "'n libs \<Rightarrow> bool" where
  "hd_contract L =
     (\<forall>seed path k. hd_privateKey L (hd_derive L (hd_fromMasterSeed L seed) path) = Some k
        \<longrightarrow> valid_privkey (encodeBase16 k))"

definition hd_has_private :: "'n libs \<Rightarrow> bool" where
  "hd_has_private L =
     (\<forall>seed path. hd_privateKey L (hd_derive L (hd_fromMasterSeed L seed) path) \<noteq> None)"

definition bip39_contract :: "'n libs \<Rightarrow> bool" where
  "bip39_contract L =
     (\<forall>rnd. length rnd = 16 \<longrightarrow> bip39_validateMnemonic L (bip39_generateMnemonic L rnd))"

subsection \<open>The parser as the spec words it\<close>




subsection \<open>A stand-in for the libraries\<close>

text \<open>
  One implementation of the library interface, small enough to evaluate, on which the
  theorems are instantiated. Its Keccak digest is the input cut or zero-padded to 32
  bytes, its Blake2b digest the last four bytes of the input, zero-padded to the length
  asked for; the public key of a private key repeats the key as both coordinates; the
  mnemonic of 16 random bytes is their hex, and a mnemonic is valid when it is 32
  lowercase hex characters; every node of the key tree holds the private key 1.
\<close>

definition stub_libs :: "byte list libs" where
  "stub_libs =
     \<lparr>keccak256_digest = (\<lambda>bs. take 32 (bs @ replicate 32 0)),
      blake2b_digest = (\<lambda>bs n. take n (slice_last 4 bs @ replicate n 0)),
      ec_getPublic = (\<lambda>k. ''04'' @ encodeBase16 (take 64 (decodeBase16 (k @ k) @ replicate 64 0))),
      bip39_generateMnemonic = encodeBase16,
      bip39_validateMnemonic = (\<lambda>m. length m = 32 \<and> is_lower_hex m),
      bip39_mnemonicToSeedSync = map (\<lambda>c. of_nat (of_char c)),
      hd_fromMasterSeed = (\<lambda>seed. seed),
      hd_derive = (\<lambda>node path. node),
      hd_privateKey = (\<lambda>node. Some (replicate 31 0 @ [1]))\<rparr>"

subsection \<open>The bytes of an address\<close>

text \<open>
  The layout of a REV address as the spec words it: the payload is the coin identifier
  (three zero bytes), the version (one zero byte) and the Keccak-256 digest; the checksum
  is the first four bytes of the Blake2b-256 digest of the payload.
\<close>

definition payload_bytes :: "'n libs \<Rightarrow> byte list \<Rightarrow> byte list" where
  "payload_bytes L eth = [0, 0, 0] @ [0] @ keccak256_digest L eth"

definition checksum_bytes :: "'n libs \<Rightarrow> byte list \<Rightarrow> byte list" where
  "checksum_bytes L payload = take 4 (blake2b_digest L payload 32)"

text \<open>The private key 1.\<close>

definition key_one :: string where
  "key_one = ''0000000000000000000000000000000000000000000000000000000000000001''"

subsection \<open>Predicates on results\<close>

text \<open>Every field of a wallet is present.\<close>

definition all_present :: "RevAddress \<Rightarrow> bool" where
  "all_present w =
     (mnemonic w \<noteq> None \<and> privKey w \<noteq> None \<and> pubKey w \<noteq> None \<and> ethAddr w \<noteq> None \<and>
      revAddr w \<noteq> None)"

text \<open>
  A hex field, when present, is lowercase hex; a string of lowercase hex digits cannot
  begin with \<open>0x\<close>. \<open>derived_hex_ok\<close> asks it of the three hex fields, \<open>tagged_hex_ok v\<close> of
  the fields that do not hold the caller's value \<open>v\<close>.
\<close>

definition lower_hex_opt :: "string option \<Rightarrow> bool" where
  "lower_hex_opt f = (case f of None \<Rightarrow> True | Some h \<Rightarrow> is_lower_hex h)"

definition derived_hex_ok :: "RevAddress \<Rightarrow> bool" where
  "derived_hex_ok r = (lower_hex_opt (privKey r) \<and> lower_hex_opt (pubKey r) \<and> lower_hex_opt (ethAddr r))"

definition tagged_hex_ok :: "string \<Rightarrow> RevAddress \<Rightarrow> bool" where
  "tagged_hex_ok v r =
     ((privKey r = Some v \<and> lower_hex_opt (pubKey r) \<and> lower_hex_opt (ethAddr r)) \<or>
      (privKey r = None \<and> pubKey r = Some v \<and> lower_hex_opt (ethAddr r)) \<or>
      (privKey r = None \<and> pubKey r = None \<and> ethAddr r = Some v) \<or>
      (privKey r = None \<and> pubKey r = None \<and> ethAddr r = None))"

text \<open>A network address in uppercase.\<close>

definition upper40 :: string where
  "upper40 = ''0A0A0A0A0A0A0A0A0A0A0A0A0A0A0A0A0A0A0A0A''"


subsection \<open>Concrete texts\<close>





section \<open>Properties\<close>

subsection \<open>Hex and base58\<close>

lemma index_of_nth: "distinct xs \<Longrightarrow> i < length xs \<Longrightarrow> index_of xs (xs ! i) = i"
proof (induction xs arbitrary: i)
  case Nil
  then show ?case by simp
next
  case (Cons x xs)
  show ?case
  proof (cases i)
    case 0
    then show ?thesis by (simp add: index_of_def)
  next
    case (Suc j)
    with Cons.prems have "j < length xs" and "xs ! j \<noteq> x"
      by auto
    with Cons.IH [of j] Cons.prems Suc show ?thesis
      by (simp add: index_of_def)
  qed
qed



lemma distinct_hex_digits: "distinct hex_digits"
  by (simp add: hex_digits_def)

lemma length_hex_digits: "length hex_digits = 16"
  by (simp add: hex_digits_def)

lemma hex_char_in: "d < 16 \<Longrightarrow> hex_char d \<in> set hex_digits"
  by (simp add: hex_char_def length_hex_digits)

lemma hex_val_hex_char: "d < 16 \<Longrightarrow> hex_val (hex_char d) = d"
  using index_of_nth [OF distinct_hex_digits, of d]
  by (simp add: hex_val_def hex_char_in) (simp add: hex_char_def length_hex_digits)

lemma lower_hex_char: "d < 16 \<Longrightarrow> is_lower_hex_char (hex_char d)"
  by (simp add: is_lower_hex_char_def hex_char_in)


lemma unat_byte_div16: "unat (b :: byte) div 16 < 16"
proof -
  have "unat b < 2 ^ LENGTH(8)" by (rule unsigned_less)
  then show ?thesis by simp
qed

lemma encodeBase16_Nil: "encodeBase16 [] = []"
  by (simp add: encodeBase16_def)

lemma encodeBase16_Cons:
  "encodeBase16 (b # bs) = hex_char (unat b div 16) # hex_char (unat b mod 16) # encodeBase16 bs"
  by (simp add: encodeBase16_def)

lemma encodeBase16_append: "encodeBase16 (xs @ ys) = encodeBase16 xs @ encodeBase16 ys"
  by (simp add: encodeBase16_def)

lemma length_encodeBase16: "length (encodeBase16 bs) = 2 * length bs"
  by (induction bs) (simp_all add: encodeBase16_Nil encodeBase16_Cons)

lemma decode_encodeBase16: "decodeBase16 (encodeBase16 bs) = bs"
  by (induction bs)
     (simp_all add: encodeBase16_Nil encodeBase16_Cons hex_val_hex_char unat_byte_div16)

lemma take_encodeBase16: "take (2 * k) (encodeBase16 bs) = encodeBase16 (take k bs)"
proof (induction bs arbitrary: k)
  case Nil
  then show ?case by (simp add: encodeBase16_Nil)
next
  case (Cons b bs)
  show ?case
  proof (cases k)
    case 0
    then show ?thesis by (simp add: encodeBase16_Nil)
  next
    case (Suc j)
    then show ?thesis using Cons.IH [of j] by (simp add: encodeBase16_Cons)
  qed
qed

lemma drop_encodeBase16: "drop (2 * k) (encodeBase16 bs) = encodeBase16 (drop k bs)"
proof (induction bs arbitrary: k)
  case Nil
  then show ?case by (simp add: encodeBase16_Nil)
next
  case (Cons b bs)
  show ?case
  proof (cases k)
    case 0
    then show ?thesis by simp
  next
    case (Suc j)
    then show ?thesis using Cons.IH [of j] by (simp add: encodeBase16_Cons)
  qed
qed

lemma is_lower_hex_encodeBase16: "is_lower_hex (encodeBase16 bs)"
  by (induction bs)
     (simp_all add: is_lower_hex_def encodeBase16_Nil encodeBase16_Cons lower_hex_char
        unat_byte_div16)


declare to_base.simps [simp del]

lemma from_base_Nil: "from_base b [] = 0"
  by (simp add: from_base_def)

lemma from_base_snoc: "from_base b (ds @ [d]) = from_base b ds * b + d"
  by (simp add: from_base_def)

lemma from_base_zeros: "from_base b (replicate z 0 @ ds) = from_base b ds"
proof (induction z)
  case 0
  then show ?case by simp
next
  case (Suc z)
  have "foldl (\<lambda>acc d. acc * b + d) 0 (0 # replicate z 0 @ ds)
      = foldl (\<lambda>acc d. acc * b + d) 0 (replicate z 0 @ ds)"
    by simp
  with Suc show ?case by (simp add: from_base_def)
qed

lemma to_base_0: "to_base b 0 = []"
  by (simp add: to_base.simps)

lemma to_base_step: "2 \<le> b \<Longrightarrow> 0 < n \<Longrightarrow> to_base b n = to_base b (n div b) @ [n mod b]"
  by (subst to_base.simps) simp

lemma from_to_base: "2 \<le> b \<Longrightarrow> from_base b (to_base b n) = n"
proof (induction b n rule: to_base.induct)
  case (1 b n)
  show ?case
  proof (cases "n = 0")
    case True
    then show ?thesis by (simp add: to_base_0 from_base_Nil)
  next
    case False
    with 1 show ?thesis
      by (simp add: to_base_step from_base_snoc)
  qed
qed

lemma to_base_digits: "2 \<le> b \<Longrightarrow> d \<in> set (to_base b n) \<Longrightarrow> d < b"
proof (induction b n rule: to_base.induct)
  case (1 b n)
  show ?case
  proof (cases "n = 0")
    case True
    with 1 show ?thesis by (simp add: to_base_0)
  next
    case False
    with 1 show ?thesis
      by (auto simp: to_base_step)
  qed
qed

lemma to_base_eq_Nil: "2 \<le> b \<Longrightarrow> to_base b n = [] \<longleftrightarrow> n = 0"
  by (cases "n = 0") (simp_all add: to_base_0 to_base_step)

lemma to_base_hd: "2 \<le> b \<Longrightarrow> 0 < n \<Longrightarrow> hd (to_base b n) \<noteq> 0"
proof (induction b n rule: to_base.induct)
  case (1 b n)
  show ?case
  proof (cases "n div b = 0")
    case True
    with 1 have "n mod b = n" by (simp add: div_eq_0_iff)
    with 1 True show ?thesis by (simp add: to_base_step to_base_0)
  next
    case False
    with 1 have "hd (to_base b (n div b)) \<noteq> 0" and "to_base b (n div b) \<noteq> []"
      by (simp_all add: to_base_eq_Nil)
    with 1 show ?thesis by (simp add: to_base_step)
  qed
qed

lemma canonical_to_base: "2 \<le> b \<Longrightarrow> canonical b (to_base b n)"
  unfolding canonical_def list_all_iff
  using to_base_digits [of b] to_base_hd [of b n] to_base_eq_Nil [of b n] by auto

lemma from_base_pos: "canonical b ds \<Longrightarrow> ds \<noteq> [] \<Longrightarrow> 0 < from_base b ds"
proof (induction ds rule: rev_induct)
  case Nil
  then show ?case by simp
next
  case (snoc d ds)
  show ?case
  proof (cases "ds = []")
    case True
    with snoc.prems show ?thesis by (simp add: canonical_def from_base_def)
  next
    case False
    with snoc.prems have "canonical b ds" by (simp add: canonical_def)
    with snoc.IH False have "0 < from_base b ds" by simp
    moreover from snoc.prems have "0 < b" by (auto simp: canonical_def)
    ultimately show ?thesis by (simp add: from_base_snoc)
  qed
qed

lemma to_from_base: "2 \<le> b \<Longrightarrow> canonical b ds \<Longrightarrow> to_base b (from_base b ds) = ds"
proof (induction ds rule: rev_induct)
  case Nil
  then show ?case by (simp add: from_base_Nil to_base_0)
next
  case (snoc d ds)
  from snoc.prems have d: "d < b" by (simp add: canonical_def)
  show ?case
  proof (cases "ds = []")
    case True
    with snoc.prems have "0 < d" by (simp add: canonical_def)
    with True d snoc.prems(1) show ?thesis
      by (simp add: from_base_def to_base_step to_base_0)
  next
    case False
    with snoc.prems have c: "canonical b ds" by (simp add: canonical_def)
    have "0 < from_base b ds" by (rule from_base_pos [OF c False])
    then have "0 < from_base b ds * b + d" using snoc.prems(1) by simp
    with snoc.IH [OF snoc.prems(1) c] d snoc.prems(1) show ?thesis
      by (simp add: from_base_snoc to_base_step)
  qed
qed

lemma takeWhile_eq_replicate:
  "takeWhile (\<lambda>x. x = a) xs = replicate (length (takeWhile (\<lambda>x. x = a) xs)) a"
  by (induction xs) simp_all

lemma split_leading:
  "xs = replicate (length (takeWhile (\<lambda>x. x = a) xs)) a @ dropWhile (\<lambda>x. x = a) xs"
  using takeWhile_eq_replicate [of a xs] takeWhile_dropWhile_id [of "\<lambda>x. x = a" xs] by simp

lemma dropWhile_hd: "dropWhile P xs \<noteq> [] \<Longrightarrow> \<not> P (hd (dropWhile P xs))"
  by (induction xs) auto

lemma canonical_bytes: "canonical 256 (map unat (dropWhile (\<lambda>b. b = 0) (bs :: byte list)))"
proof -
  have "unat b < 256" for b :: byte
    using unsigned_less [of b, where 'a = nat] by simp
  then have "list_all (\<lambda>d. d < 256) (map unat (dropWhile (\<lambda>b. b = 0) bs))"
    by (simp add: list_all_iff)
  moreover have "dropWhile (\<lambda>b. b = 0) bs \<noteq> [] \<Longrightarrow> hd (dropWhile (\<lambda>b. b = 0) bs) \<noteq> 0"
    using dropWhile_hd [of "\<lambda>b. b = 0" bs] by simp
  then have "map unat (dropWhile (\<lambda>b. b = 0) bs) = [] \<or>
      hd (map unat (dropWhile (\<lambda>b. b = 0) bs)) \<noteq> 0"
    by (cases "dropWhile (\<lambda>b. b = 0) bs") (auto simp: unat_eq_0)
  ultimately show ?thesis by (simp add: canonical_def)
qed

lemma bytes_number:
  "map of_nat (to_base 256 (from_base 256 (map unat (bs :: byte list)))) = dropWhile (\<lambda>b. b = 0) bs"
proof -
  let ?z = "length (takeWhile (\<lambda>b. b = 0) bs)" and ?r = "dropWhile (\<lambda>b. b = 0) bs"
  have "map unat bs = replicate ?z 0 @ map unat ?r"
    by (subst split_leading [of bs 0]) (simp del: replicate_append_same)
  then have "from_base 256 (map unat bs) = from_base 256 (map unat ?r)"
    by (simp add: from_base_zeros)
  then have "to_base 256 (from_base 256 (map unat bs)) = map unat ?r"
    using to_from_base [OF _ canonical_bytes, of bs] by simp
  then show ?thesis by (simp add: comp_def)
qed

lemma distinct_b58: "distinct b58_alphabet"
  by (simp add: b58_alphabet_def)

lemma length_b58: "length b58_alphabet = 58"
  by (simp add: b58_alphabet_def)

lemma b58_nth_0: "b58_alphabet ! 0 = CHR ''1''"
  by (simp add: b58_alphabet_def)

lemma b58_digit:
  assumes "d < 58"
  shows "b58_alphabet ! d \<in> set b58_alphabet" and "b58_index (b58_alphabet ! d) = d"
    and "b58_alphabet ! d = CHR ''1'' \<longleftrightarrow> d = 0"
proof -
  show "b58_alphabet ! d \<in> set b58_alphabet"
    using assms by (simp add: length_b58)
  show i: "b58_index (b58_alphabet ! d) = d"
    using assms index_of_nth [OF distinct_b58, of d] by (simp add: b58_index_def length_b58)
  have "b58_index (CHR ''1'') = 0"
    by (simp add: b58_index_def index_of_def b58_alphabet_def)
  with i show "b58_alphabet ! d = CHR ''1'' \<longleftrightarrow> d = 0"
    using b58_nth_0 by metis
qed

lemma base58_roundtrip: "base58_decode (base58_encode bs) = Some bs"
proof -
  let ?z = "length (takeWhile (\<lambda>b. b = 0) bs)"
  let ?n = "from_base 256 (map unat bs)"
  let ?ds = "to_base 58 ?n"
  let ?s = "replicate ?z (CHR ''1'') @ map (\<lambda>d. b58_alphabet ! d) ?ds"
  have c: "canonical 58 ?ds" by (rule canonical_to_base) simp
  then have lt: "\<And>d. d \<in> set ?ds \<Longrightarrow> d < 58"
    by (simp add: canonical_def list_all_iff)
  have one: "CHR ''1'' \<in> set b58_alphabet"
    using b58_digit(1) [of 0] b58_nth_0 by simp
  have ok: "list_all (\<lambda>c. c \<in> set b58_alphabet) ?s"
    using one lt b58_digit(1) by (auto simp: list_all_iff)
  have "takeWhile (\<lambda>c. c = CHR ''1'') (map (\<lambda>d. b58_alphabet ! d) ?ds) = []"
  proof (cases ?ds)
    case Nil
    then show ?thesis by simp
  next
    case (Cons d ds)
    with c have "d \<noteq> 0" and "d < 58" by (simp_all add: canonical_def)
    with Cons b58_digit(3) [of d] show ?thesis by simp
  qed
  then have lead: "length (takeWhile (\<lambda>c. c = CHR ''1'') ?s) = ?z"
    by (simp add: takeWhile_append)
  have "b58_index (CHR ''1'') = 0"
    using b58_digit(2) [of 0] b58_nth_0 by simp
  moreover have "map (\<lambda>d. b58_index (b58_alphabet ! d)) ?ds = ?ds"
    using lt b58_digit(2) by (simp add: map_idI)
  ultimately have m: "map b58_index ?s = replicate ?z 0 @ ?ds"
    by (simp add: comp_def)
  have "from_base 58 (map b58_index ?s) = ?n"
    unfolding m by (simp add: from_base_zeros from_to_base)
  then have "base58_decode ?s = Some (replicate ?z 0 @ dropWhile (\<lambda>b. b = 0) bs)"
    using ok lead by (simp add: base58_decode_def bytes_number)
  then show ?thesis
    using split_leading [of bs 0] by (simp add: base58_encode_def)
qed

lemma encodeBase16_inj: "encodeBase16 a = encodeBase16 b \<Longrightarrow> a = b"
  using decode_encodeBase16 by metis

lemma zeros_hex: "''00000000'' = encodeBase16 [0, 0, 0, 0]"
  by (simp add: encodeBase16_def hex_char_def hex_digits_def)

lemma x_not_hex: "\<not> is_lower_hex_char CHR ''x''"
  by (simp add: is_lower_hex_char_def hex_digits_def)

lemma strip0x_lower_hex: "is_lower_hex p \<Longrightarrow> strip0x p = p"
  by (cases p rule: strip0x.cases) (auto simp: is_lower_hex_def x_not_hex)

lemma is_lower_hex_drop: "is_lower_hex p \<Longrightarrow> is_lower_hex (drop k p)"
  unfolding is_lower_hex_def list_all_iff by (auto dest: in_set_dropD)

lemma base58_encode_zero: "base58_encode (0 # bs) \<noteq> []"
  by (simp add: base58_encode_def)

lemma getAddrFromEth_bytes:
  assumes "length (strip0x s) = 40"
  shows "getAddrFromEth L s =
    Some (base58_encode (payload_bytes L (decodeBase16 (strip0x s)) @
      checksum_bytes L (payload_bytes L (decodeBase16 (strip0x s)))))"
proof -
  let ?kd = "keccak256_digest L (decodeBase16 (strip0x s))"
  have p: "prefix_coinId @ prefix_version @ encodeBase16 ?kd = encodeBase16 ([0, 0, 0] @ [0] @ ?kd)"
    unfolding encodeBase16_append
    by (simp add: prefix_coinId_def prefix_version_def encodeBase16_def hex_char_def hex_digits_def)
  have t: "take 8 (encodeBase16 d) = encodeBase16 (take 4 d)" for d
    using take_encodeBase16 [of 4 d] by simp
  from assms have ne: "strip0x s \<noteq> []" by auto
  show ?thesis
    unfolding getAddrFromEth_def Let_def keccak256_def blake2bHex_def p t
      encodeBase16_append [symmetric] encodeBase58_def decode_encodeBase16
      payload_bytes_def checksum_bytes_def
    using assms ne by simp
qed

lemma getAddrFromEth_nonempty: "getAddrFromEth L s = Some a \<Longrightarrow> a \<noteq> []"
proof -
  assume h: "getAddrFromEth L s = Some a"
  then have "length (strip0x s) = 40"
    by (auto simp: getAddrFromEth_def Let_def split: if_splits)
  from getAddrFromEth_bytes [OF this, of L] h show ?thesis
    by (auto simp: payload_bytes_def base58_encode_zero)
qed

lemma verifyRevAddr_bytes:
  "verifyRevAddr L a =
    (case decodeBase58safe a of
       None \<Rightarrow> False
     | Some bs \<Rightarrow> drop (length bs - 4) bs = take 4 (blake2b_digest L (take (length bs - 4) bs) 32))"
proof (cases "decodeBase58safe a")
  case None
  then show ?thesis by (simp add: verifyRevAddr_def)
next
  case (Some bs)
  have l: "length (encodeBase16 bs) - 8 = 2 * (length bs - 4)"
    by (simp add: length_encodeBase16)
  have "verifyRevAddr L a =
      (encodeBase16 (drop (length bs - 4) bs) =
       encodeBase16 (take 4 (blake2b_digest L (take (length bs - 4) bs) 32)))"
    using take_encodeBase16 [of 4]
    by (simp add: verifyRevAddr_def Some Let_def slice_init_def slice_last_def l
        take_encodeBase16 drop_encodeBase16 decode_encodeBase16 blake2bHex_def)
  then show ?thesis using Some encodeBase16_inj by auto
qed

lemma decodeBase58safe_encode: "decodeBase58safe (base58_encode bs) = Some bs"
  by (simp add: decodeBase58safe_def base58_roundtrip)

lemma verifyRevAddr_encode:
  "length c = 4 \<Longrightarrow>
   verifyRevAddr L (base58_encode (p @ c)) = (c = take 4 (blake2b_digest L p 32))"
  by (simp add: verifyRevAddr_bytes decodeBase58safe_encode)

lemma length_checksum: "hash_contract L \<Longrightarrow> length (checksum_bytes L p) = 4"
  by (simp add: hash_contract_def checksum_bytes_def)

lemma verify_getAddrFromEth:
  assumes "hash_contract L" and "getAddrFromEth L s = Some a"
  shows "verifyRevAddr L a"
proof -
  from assms(2) have "length (strip0x s) = 40"
    by (auto simp: getAddrFromEth_def Let_def split: if_splits)
  from getAddrFromEth_bytes [OF this, of L] assms(2)
  have "a = base58_encode (payload_bytes L (decodeBase16 (strip0x s)) @
      checksum_bytes L (payload_bytes L (decodeBase16 (strip0x s))))"
    by simp
  moreover have "verifyRevAddr L (base58_encode (p @ checksum_bytes L p))" for p
    using verifyRevAddr_encode [OF length_checksum [OF assms(1)], of L p p]
    by (simp add: checksum_bytes_def)
  ultimately show ?thesis by simp
qed

lemma getAddrFromPublicKey_wf:
  assumes "hash_contract L" and "wf_pubkey p"
  shows "\<exists>a. getAddrFromPublicKey L p =
      Some (no_fields\<lparr>revAddr := Some a,
        ethAddr := Some (slice_last 40 (keccak256 L (drop 1 (decodeBase16 p))))\<rparr>)
      \<and> verifyRevAddr L a"
proof -
  let ?e = "slice_last 40 (keccak256 L (drop 1 (decodeBase16 p)))"
  from assms(2) have sp: "strip0x p = p" and lp: "length p = 130"
    by (simp_all add: wf_pubkey_def strip0x_lower_hex)
  have "length (keccak256 L (drop 1 (decodeBase16 p))) = 64"
    using assms(1) by (simp add: keccak256_def length_encodeBase16 hash_contract_def)
  then have le: "length ?e = 40" by (simp add: slice_last_def)
  have "is_lower_hex ?e"
    by (simp add: slice_last_def keccak256_def is_lower_hex_drop is_lower_hex_encodeBase16)
  then have se: "strip0x ?e = ?e" by (rule strip0x_lower_hex)
  from le se obtain a where a: "getAddrFromEth L ?e = Some a"
    using getAddrFromEth_bytes [of ?e L] by simp
  with getAddrFromEth_nonempty [OF a] verify_getAddrFromEth [OF assms(1) a] sp lp
  show ?thesis
    by (auto simp: getAddrFromPublicKey_def Let_def)
qed

text \<open>
  Claim C1. For every string that, after an optional \<open>0x\<close> is stripped, is a valid
  secp256k1 private key of 64 hex characters, \<open>getAddrFromPrivateKey\<close> returns a record,
  never \<open>undefined\<close>, and \<open>verifyRevAddr\<close> accepts the \<open>revAddr\<close> of that record. The
  libraries are assumed to keep their interface: digests of 32 bytes, and a public key of
  130 lowercase hex characters for a valid private key.
\<close>

theorem private_key_address_verifies:
  assumes "hash_contract L" and "ec_contract L" and "valid_privkey (strip0x s)"
  shows "\<exists>r a. getAddrFromPrivateKey L s = Some r \<and> revAddr r = Some a \<and> verifyRevAddr L a"
proof -
  from assms(3) have l: "length (strip0x s) = 64" by (simp add: valid_privkey_def)
  from assms(2,3) have "wf_pubkey (ec_getPublic L (strip0x s))"
    by (simp add: ec_contract_def)
  from getAddrFromPublicKey_wf [OF assms(1) this] l show ?thesis
    by (auto simp: getAddrFromPrivateKey_def Let_def spread_def over_def no_fields_def)
qed

lemma hex_key_one: "is_hex key_one"
  by (simp add: key_one_def is_hex_def is_hex_char_def hex_digits_def)

lemma map_hex_val_key_one: "map hex_val key_one = replicate 63 0 @ [1]"
  by (simp add: key_one_def hex_val_def hex_digits_def index_of_def numeral_eq_Suc)

lemma valid_key_one: "valid_privkey key_one"
  unfolding valid_privkey_def hex_number_def map_hex_val_key_one from_base_zeros
  by (simp add: hex_key_one) (simp add: key_one_def from_base_def secp256k1_n_def)

lemma hash_contract_stub: "hash_contract stub_libs"
  by (auto simp: hash_contract_def stub_libs_def)

lemma ec_contract_stub: "ec_contract stub_libs"
proof -
  have "is_lower_hex ''04''"
    by (simp add: is_lower_hex_def is_lower_hex_char_def hex_digits_def)
  then have "wf_pubkey (ec_getPublic stub_libs k)" for k
    using is_lower_hex_encodeBase16
    by (simp add: wf_pubkey_def stub_libs_def length_encodeBase16 is_lower_hex_def)
  then show ?thesis by (simp add: ec_contract_def)
qed

lemma strip0x_0x: "strip0x (CHR ''0'' # CHR ''x'' # s) = s"
  by simp

text \<open>
  The theorem at the private key 1, written with the \<open>0x\<close> prefix.
\<close>

theorem private_key_address_verifies_witness:
  "hash_contract stub_libs \<and> ec_contract stub_libs \<and> valid_privkey (strip0x (''0x'' @ key_one)) \<and>
   (\<exists>r a. getAddrFromPrivateKey stub_libs (''0x'' @ key_one) = Some r \<and> revAddr r = Some a \<and>
      verifyRevAddr stub_libs a)"
proof -
  have s: "strip0x (''0x'' @ key_one) = key_one" by simp
  show ?thesis
    using private_key_address_verifies [OF hash_contract_stub ec_contract_stub, of "''0x'' @ key_one"]
      hash_contract_stub ec_contract_stub valid_key_one
    unfolding s by blast
qed

lemma length_decodeBase16: "length (decodeBase16 s) = length s div 2"
  by (induction s rule: decodeBase16.induct) simp_all

text \<open>
  Claim C2. For every input that, after an optional \<open>0x\<close> is stripped, is exactly 40 hex
  characters, \<open>getAddrFromEth\<close> returns the base58 encoding of payload and checksum: the
  payload is the three bytes of the coin identifier, the version byte and the Keccak-256
  digest of the 20 bytes the input spells, the checksum the first four bytes of the
  Blake2b-256 digest of the payload.
\<close>

theorem getAddrFromEth_layout:
  assumes "length (strip0x s) = 40" and "is_hex (strip0x s)"
  shows "getAddrFromEth L s =
      Some (base58_encode (payload_bytes L (decodeBase16 (strip0x s)) @
        checksum_bytes L (payload_bytes L (decodeBase16 (strip0x s))))) \<and>
    length (decodeBase16 (strip0x s)) = 20"
  using getAddrFromEth_bytes [OF assms(1), of L] assms(1) by (simp add: length_decodeBase16)

text \<open>
  Claim C7. An input whose length, after an optional \<open>0x\<close> is stripped, is one short or
  one long of the required length gets no result: \<open>getAddrFromEth\<close> returns \<open>undefined\<close>
  at the lengths 39 and 41, \<open>getAddrFromPrivateKey\<close> at 63 and 65, \<open>getAddrFromPublicKey\<close>
  at 129 and 131.
\<close>

theorem exact_length_enforced:
  "(length (strip0x s) = 39 \<or> length (strip0x s) = 41 \<longrightarrow> getAddrFromEth L s = None) \<and>
   (length (strip0x s) = 63 \<or> length (strip0x s) = 65 \<longrightarrow> getAddrFromPrivateKey L s = None) \<and>
   (length (strip0x s) = 129 \<or> length (strip0x s) = 131 \<longrightarrow> getAddrFromPublicKey L s = None)"
  by (auto simp: getAddrFromEth_def getAddrFromPrivateKey_def getAddrFromPublicKey_def Let_def)

text \<open>
  The theorem at the six lengths, the longer ones with a prefix.
\<close>

theorem exact_length_enforced_witness:
  "length (strip0x ''aaaaaaaaaaaaaaaaaaaaaaaaaaaaaaaaaaaaaaa'') = 39 \<and>
   getAddrFromEth stub_libs ''aaaaaaaaaaaaaaaaaaaaaaaaaaaaaaaaaaaaaaa'' = None \<and>
   length (strip0x ''0xaaaaaaaaaaaaaaaaaaaaaaaaaaaaaaaaaaaaaaaaa'') = 41 \<and>
   getAddrFromEth stub_libs ''0xaaaaaaaaaaaaaaaaaaaaaaaaaaaaaaaaaaaaaaaaa'' = None \<and>
   getAddrFromPrivateKey stub_libs ''aaaaaaaaaaaaaaaaaaaaaaaaaaaaaaaaaaaaaaaaaaaaaaaaaaaaaaaaaaaaaaa'' = None \<and>
   getAddrFromPrivateKey stub_libs ''0xaaaaaaaaaaaaaaaaaaaaaaaaaaaaaaaaaaaaaaaaaaaaaaaaaaaaaaaaaaaaaaaaa'' = None \<and>
   getAddrFromPublicKey stub_libs ''aaaaaaaaaaaaaaaaaaaaaaaaaaaaaaaaaaaaaaaaaaaaaaaaaaaaaaaaaaaaaaaaaaaaaaaaaaaaaaaaaaaaaaaaaaaaaaaaaaaaaaaaaaaaaaaaaaaaaaaaaaaaaaaaa'' = None \<and>
   getAddrFromPublicKey stub_libs ''0xaaaaaaaaaaaaaaaaaaaaaaaaaaaaaaaaaaaaaaaaaaaaaaaaaaaaaaaaaaaaaaaaaaaaaaaaaaaaaaaaaaaaaaaaaaaaaaaaaaaaaaaaaaaaaaaaaaaaaaaaaaaaaaaaaaa'' = None"
  using exact_length_enforced [of "''aaaaaaaaaaaaaaaaaaaaaaaaaaaaaaaaaaaaaaa''" stub_libs]
    exact_length_enforced [of "''0xaaaaaaaaaaaaaaaaaaaaaaaaaaaaaaaaaaaaaaaaa''" stub_libs]
    exact_length_enforced [of "''aaaaaaaaaaaaaaaaaaaaaaaaaaaaaaaaaaaaaaaaaaaaaaaaaaaaaaaaaaaaaaa''" stub_libs]
    exact_length_enforced [of "''0xaaaaaaaaaaaaaaaaaaaaaaaaaaaaaaaaaaaaaaaaaaaaaaaaaaaaaaaaaaaaaaaaa''" stub_libs]
    exact_length_enforced [of "''aaaaaaaaaaaaaaaaaaaaaaaaaaaaaaaaaaaaaaaaaaaaaaaaaaaaaaaaaaaaaaaaaaaaaaaaaaaaaaaaaaaaaaaaaaaaaaaaaaaaaaaaaaaaaaaaaaaaaaaaaaaaaaaaa''" stub_libs]
    exact_length_enforced [of "''0xaaaaaaaaaaaaaaaaaaaaaaaaaaaaaaaaaaaaaaaaaaaaaaaaaaaaaaaaaaaaaaaaaaaaaaaaaaaaaaaaaaaaaaaaaaaaaaaaaaaaaaaaaaaaaaaaaaaaaaaaaaaaaaaaaaa''" stub_libs]
  by simp

lemma replicate_num: "replicate (numeral v) x = x # replicate (numeral v - 1) x"
  by (simp add: numeral_eq_Suc)

lemmas codec_eval =
  encodeBase58_def base58_encode_def base58_decode_def decodeBase58safe_def from_base_def
  to_base.simps b58_alphabet_def b58_index_def index_of_def hex_val_def hex_digits_def
  hex_upper_def hex_char_def encodeBase16_def

lemmas stub_eval = stub_libs_def slice_last_def slice_init_def replicate_num

text \<open>
  The theorem at an address with a prefix and mixed case.
\<close>

theorem getAddrFromEth_layout_witness:
  "length (strip0x ''0x00000000000000000000000000000000000000fF'') = 40 \<and>
   is_hex (strip0x ''0x00000000000000000000000000000000000000fF'') \<and>
   getAddrFromEth stub_libs ''0x00000000000000000000000000000000000000fF'' =
     Some ''111111111111111111111113Pz44J6qhtJduJJQs7hHqqdR''"
proof -
  let ?s = "''0x00000000000000000000000000000000000000fF''"
  have l: "length (strip0x ?s) = 40" by simp
  have h: "is_hex (strip0x ?s)"
    by (simp add: is_hex_def is_hex_char_def hex_digits_def hex_upper_def)
  have d: "decodeBase16 (strip0x ?s) = [0, 0, 0, 0, 0, 0, 0, 0, 0, 0, 0, 0, 0, 0, 0, 0, 0, 0, 0, 255]"
    by (simp add: codec_eval)
  have p: "payload_bytes stub_libs [0, 0, 0, 0, 0, 0, 0, 0, 0, 0, 0, 0, 0, 0, 0, 0, 0, 0, 0, 255] =
      [0, 0, 0, 0, 0, 0, 0, 0, 0, 0, 0, 0, 0, 0, 0, 0, 0, 0, 0, 0, 0, 0, 0, 255,
       0, 0, 0, 0, 0, 0, 0, 0, 0, 0, 0, 0]"
    by (simp add: payload_bytes_def stub_eval)
  have c: "checksum_bytes stub_libs [0, 0, 0, 0, 0, 0, 0, 0, 0, 0, 0, 0, 0, 0, 0, 0, 0, 0, 0, 0, 0, 0, 0, 255,
       0, 0, 0, 0, 0, 0, 0, 0, 0, 0, 0, 0] = [0, 0, 0, 0]"
    by (simp add: checksum_bytes_def stub_eval)
  have e: "base58_encode ([0, 0, 0, 0, 0, 0, 0, 0, 0, 0, 0, 0, 0, 0, 0, 0, 0, 0, 0, 0, 0, 0, 0, 255,
       0, 0, 0, 0, 0, 0, 0, 0, 0, 0, 0, 0] @ [0, 0, 0, 0]) = ''111111111111111111111113Pz44J6qhtJduJJQs7hHqqdR''"
    by (simp add: codec_eval replicate_num)
  from getAddrFromEth_layout [OF l h, of stub_libs] l h show ?thesis
    unfolding d p c e by simp
qed

subsection \<open>The short address, wallets and the parser\<close>

text \<open>
  Claim C10. Some input whose base58 decoding has four bytes or fewer is accepted by
  \<open>verifyRevAddr\<close>: the base58 encoding of the first four bytes of the Blake2b-256 digest
  of the empty byte string. It decodes to those four bytes and the payload slice is empty.
  In general an input that decodes to four bytes or fewer is compared, as a whole, with
  the checksum of the empty payload. The Blake2b digest is assumed to have 32 bytes.
\<close>

theorem empty_payload_address_accepted:
  assumes "hash_contract L"
  shows "decodeBase58safe (encodeBase58 (take 8 (blake2bHex L [] 32))) =
      Some (take 4 (blake2b_digest L [] 32)) \<and>
    length (take 4 (blake2b_digest L [] 32)) = 4 \<and>
    slice_init 8 (encodeBase16 (take 4 (blake2b_digest L [] 32))) = [] \<and>
    verifyRevAddr L (encodeBase58 (take 8 (blake2bHex L [] 32))) \<and>
    (decodeBase58safe a = Some bs \<and> length bs \<le> 4 \<longrightarrow>
       verifyRevAddr L a = (bs = take 4 (blake2b_digest L [] 32)))"
proof -
  let ?c = "take 4 (blake2b_digest L [] 32)"
  have t: "take 8 (blake2bHex L [] 32) = encodeBase16 ?c"
    using take_encodeBase16 [of 4] by (simp add: blake2bHex_def)
  have l: "length ?c = 4"
    using assms by (simp add: hash_contract_def)
  have "verifyRevAddr L (base58_encode ([] @ ?c))"
    using verifyRevAddr_encode [OF l, of L "[]"] by simp
  then have "decodeBase58safe (encodeBase58 (take 8 (blake2bHex L [] 32))) = Some ?c \<and>
      length ?c = 4 \<and> slice_init 8 (encodeBase16 ?c) = [] \<and>
      verifyRevAddr L (encodeBase58 (take 8 (blake2bHex L [] 32)))"
    using l by (simp add: t encodeBase58_def decode_encodeBase16 decodeBase58safe_encode
        slice_init_def length_encodeBase16)
  moreover have "decodeBase58safe a = Some bs \<and> length bs \<le> 4 \<longrightarrow>
      verifyRevAddr L a = (bs = ?c)"
    by (simp add: verifyRevAddr_bytes)
  ultimately show ?thesis by blast
qed

text \<open>
  With the stand-in libraries that address is \<open>1111\<close>.
\<close>

theorem empty_payload_address_accepted_witness:
  "hash_contract stub_libs \<and> decodeBase58safe ''1111'' = Some [0, 0, 0, 0] \<and>
   verifyRevAddr stub_libs ''1111''"
proof -
  have d: "take 4 (blake2b_digest stub_libs [] 32) = [0, 0, 0, 0]"
    by (simp add: stub_eval)
  have "take 8 (blake2bHex stub_libs [] 32) = encodeBase16 [0, 0, 0, 0]"
    using take_encodeBase16 [of 4 "blake2b_digest stub_libs [] 32"] d
    by (simp add: blake2bHex_def)
  moreover have "encodeBase58 (encodeBase16 [0, 0, 0, 0]) = ''1111''"
    by (simp add: encodeBase58_def decode_encodeBase16) (simp add: codec_eval)
  ultimately show ?thesis
    using empty_payload_address_accepted [OF hash_contract_stub, of "[]" "[]"]
      hash_contract_stub d
    by simp
qed

lemma getAddrFromPublicKey_shape:
  assumes "getAddrFromPublicKey L s = Some r"
  shows "\<exists>a. r = no_fields\<lparr>revAddr := Some a,
      ethAddr := Some (slice_last 40 (keccak256 L (drop 1 (decodeBase16 (strip0x s)))))\<rparr>"
  using assms
  by (auto simp: getAddrFromPublicKey_def Let_def split: if_splits option.splits)

lemma getAddrFromPrivateKey_shape:
  assumes "getAddrFromPrivateKey L s = Some r"
  shows "\<exists>a e. r = no_fields\<lparr>revAddr := Some a, ethAddr := Some e,
      pubKey := Some (ec_getPublic L (strip0x s))\<rparr> \<and>
    getAddrFromPublicKey L (ec_getPublic L (strip0x s)) =
      Some (no_fields\<lparr>revAddr := Some a, ethAddr := Some e\<rparr>)"
proof -
  from assms obtain q where q: "getAddrFromPublicKey L (ec_getPublic L (strip0x s)) = Some q"
    and r: "r = spread (no_fields\<lparr>pubKey := Some (ec_getPublic L (strip0x s))\<rparr>) q"
    by (auto simp: getAddrFromPrivateKey_def Let_def split: if_splits option.splits)
  from getAddrFromPublicKey_shape [OF q] obtain a e
    where "q = no_fields\<lparr>revAddr := Some a, ethAddr := Some e\<rparr>" by blast
  with q r show ?thesis
    by (auto simp: spread_def over_def no_fields_def)
qed

lemma valid_privkey_lower:
  assumes "valid_privkey (encodeBase16 k)"
  shows "strip0x (encodeBase16 k) = encodeBase16 k"
  by (rule strip0x_lower_hex) (rule is_lower_hex_encodeBase16)

lemma privKeyFromMnemonic_cases:
  "privKeyFromMnemonic L m = Inl e \<Longrightarrow>
     e = Error ''Unable to derive private key (HD node neutered?)'' \<and>
     hd_privateKey L (hd_derive L (hd_fromMasterSeed L (bip39_mnemonicToSeedSync L m)) hd_path) = None"
  "privKeyFromMnemonic L m = Inr k \<Longrightarrow>
     \<exists>b. k = encodeBase16 b \<and>
     hd_privateKey L (hd_derive L (hd_fromMasterSeed L (bip39_mnemonicToSeedSync L m)) hd_path) = Some b"
  by (auto simp: privKeyFromMnemonic_def Let_def split: option.splits)

lemma derived_key_has_address:
  assumes "hash_contract L" and "ec_contract L" and "hd_contract L"
    and "privKeyFromMnemonic L m = Inr k"
  shows "\<exists>a e p. getAddrFromPrivateKey L k =
      Some (no_fields\<lparr>revAddr := Some a, ethAddr := Some e, pubKey := Some p\<rparr>)"
proof -
  from privKeyFromMnemonic_cases(2) [OF assms(4)] obtain b where k: "k = encodeBase16 b"
    and "hd_privateKey L (hd_derive L (hd_fromMasterSeed L (bip39_mnemonicToSeedSync L m)) hd_path) = Some b"
    by blast
  with assms(3) have v: "valid_privkey (encodeBase16 b)"
    unfolding hd_contract_def by blast
  then have l: "length (strip0x k) = 64" and "valid_privkey (strip0x k)"
    by (simp_all add: k valid_privkey_lower valid_privkey_def)
  with assms(2) have "wf_pubkey (ec_getPublic L (strip0x k))"
    by (simp add: ec_contract_def)
  from getAddrFromPublicKey_wf [OF assms(1) this] l show ?thesis
    by (auto simp: getAddrFromPrivateKey_def Let_def spread_def over_def no_fields_def)
qed

lemma hd_contract_stub: "hd_contract stub_libs"
proof -
  have "encodeBase16 (replicate 31 0 @ [1]) = key_one"
    by (simp add: encodeBase16_def hex_char_def hex_digits_def key_one_def replicate_num)
  then show ?thesis
    using valid_key_one by (simp add: hd_contract_def stub_libs_def)
qed

lemma hd_has_private_stub: "hd_has_private stub_libs"
  by (simp add: hd_has_private_def stub_libs_def)

lemma bip39_contract_stub: "bip39_contract stub_libs"
  by (simp add: bip39_contract_def stub_libs_def length_encodeBase16 is_lower_hex_encodeBase16)

lemma privKeyFromMnemonic_stub: "privKeyFromMnemonic stub_libs m = Inr key_one"
  by (simp add: privKeyFromMnemonic_def stub_libs_def encodeBase16_def hex_char_def
      hex_digits_def key_one_def replicate_num)

text \<open>
  Claim C8. \<open>newRevAddress\<close> never returns a partial record: it raises, or it returns a
  record in which \<open>mnemonic\<close>, \<open>privKey\<close>, \<open>pubKey\<close>, \<open>ethAddr\<close> and \<open>revAddr\<close> are all
  present; the address derivation from the private key of the mnemonic, whose result the
  source casts, does not return \<open>undefined\<close>. The libraries are assumed to keep their
  interface: digests of 32 bytes, a valid private key from the key tree, a public key of
  130 lowercase hex characters for a valid private key.
\<close>

theorem newRevAddress_all_or_nothing:
  assumes "hash_contract L" and "ec_contract L" and "hd_contract L"
  shows "(\<exists>e. newRevAddress L rnd = Inl e \<and>
        privKeyFromMnemonic L (bip39_generateMnemonic L rnd) = Inl e) \<or>
    (\<exists>w k. newRevAddress L rnd = Inr w \<and>
        privKeyFromMnemonic L (bip39_generateMnemonic L rnd) = Inr k \<and>
        getAddrFromPrivateKey L k \<noteq> None \<and> all_present w)"
proof (cases "privKeyFromMnemonic L (bip39_generateMnemonic L rnd)")
  case (Inl e)
  then show ?thesis by (simp add: newRevAddress_def)
next
  case (Inr k)
  from derived_key_has_address [OF assms Inr] obtain a e p where
    "getAddrFromPrivateKey L k =
      Some (no_fields\<lparr>revAddr := Some a, ethAddr := Some e, pubKey := Some p\<rparr>)"
    by blast
  with Inr show ?thesis
    by (simp add: newRevAddress_def spread_opt_def spread_def over_def no_fields_def
        all_present_def)
qed

text \<open>
  The theorem with the stand-in libraries: the call returns, with every field.
\<close>

theorem newRevAddress_all_or_nothing_witness:
  "hash_contract stub_libs \<and> ec_contract stub_libs \<and> hd_contract stub_libs \<and>
   (\<exists>w. newRevAddress stub_libs (replicate 16 171) = Inr w \<and>
      getAddrFromPrivateKey stub_libs key_one \<noteq> None \<and> all_present w)"
  using newRevAddress_all_or_nothing [OF hash_contract_stub ec_contract_stub hd_contract_stub,
      of "replicate 16 171"]
    hash_contract_stub ec_contract_stub hd_contract_stub
  by (auto simp: privKeyFromMnemonic_stub)

text \<open>
  Claim C5. \<open>revAddressFromMnemonic\<close> raises if and only if the phrase fails the BIP-39
  validation, the message then is \<open>Invalid BIP-39 mnemonic\<close>, and on a valid phrase it
  returns a record. The key tree is assumed to hold a private key at every node derived
  from a seed, which the spec calls structurally certain; the source guards the opposite
  with a second error.
\<close>

theorem revAddressFromMnemonic_raises:
  assumes "hd_has_private L"
  shows "((\<exists>e. revAddressFromMnemonic L m = Inl e) \<longleftrightarrow> \<not> bip39_validateMnemonic L m) \<and>
    (\<forall>e. revAddressFromMnemonic L m = Inl e \<longrightarrow> e = Error ''Invalid BIP-39 mnemonic'') \<and>
    (bip39_validateMnemonic L m \<longrightarrow> (\<exists>w. revAddressFromMnemonic L m = Inr w))"
proof -
  from assms obtain b where
    "hd_privateKey L (hd_derive L (hd_fromMasterSeed L (bip39_mnemonicToSeedSync L m)) hd_path) = Some b"
    unfolding hd_has_private_def by (meson option.exhaust)
  then have "privKeyFromMnemonic L m = Inr (encodeBase16 b)"
    by (simp add: privKeyFromMnemonic_def)
  then show ?thesis
    by (simp add: revAddressFromMnemonic_def)
qed

text \<open>
  The theorem at the phrase of the test suite and at a phrase the stand-in accepts.
\<close>

theorem revAddressFromMnemonic_raises_witness:
  "hd_has_private stub_libs \<and>
   \<not> bip39_validateMnemonic stub_libs ''foo bar baz'' \<and>
   revAddressFromMnemonic stub_libs ''foo bar baz'' = Inl (Error ''Invalid BIP-39 mnemonic'') \<and>
   bip39_validateMnemonic stub_libs ''abababababababababababababababab'' \<and>
   (\<exists>w. revAddressFromMnemonic stub_libs ''abababababababababababababababab'' = Inr w)"
proof -
  have n: "\<not> bip39_validateMnemonic stub_libs ''foo bar baz''"
    by (simp add: stub_libs_def)
  have v: "bip39_validateMnemonic stub_libs ''abababababababababababababababab''"
    by (simp add: stub_libs_def is_lower_hex_def is_lower_hex_char_def hex_digits_def)
  from revAddressFromMnemonic_raises [OF hd_has_private_stub, of "''foo bar baz''"] n
  have "revAddressFromMnemonic stub_libs ''foo bar baz'' = Inl (Error ''Invalid BIP-39 mnemonic'')"
    by blast
  with revAddressFromMnemonic_raises [OF hd_has_private_stub, of "''abababababababababababababababab''"]
    n v hd_has_private_stub
  show ?thesis by blast
qed

text \<open>
  Claim C4. For every wallet \<open>w\<close> that \<open>newRevAddress\<close> returns,
  \<open>revAddressFromMnemonic\<close> of the mnemonic of \<open>w\<close> returns a record equal to \<open>w\<close> in
  every field. BIP-39 is assumed to accept the mnemonics it generates.
\<close>

theorem mnemonic_round_trip:
  assumes "bip39_contract L" and "length rnd = 16" and "newRevAddress L rnd = Inr w"
  shows "\<exists>m. mnemonic w = Some m \<and> revAddressFromMnemonic L m = Inr w"
proof -
  let ?m = "bip39_generateMnemonic L rnd"
  from assms(3) obtain k where k: "privKeyFromMnemonic L ?m = Inr k"
    and w: "w = spread_opt (no_fields\<lparr>mnemonic := Some ?m, privKey := Some k\<rparr>)
      (getAddrFromPrivateKey L k)"
    by (auto simp: newRevAddress_def Let_def split: sum.splits)
  have "mnemonic w = Some ?m"
  proof (cases "getAddrFromPrivateKey L k")
    case None
    with w show ?thesis by (simp add: spread_opt_def no_fields_def)
  next
    case (Some r)
    from getAddrFromPrivateKey_shape [OF Some] w Some show ?thesis
      by (auto simp: spread_opt_def spread_def over_def no_fields_def)
  qed
  moreover from assms(1,2) have "bip39_validateMnemonic L ?m"
    by (simp add: bip39_contract_def)
  then have "revAddressFromMnemonic L ?m = Inr w"
    using k w by (simp add: revAddressFromMnemonic_def)
  ultimately show ?thesis by blast
qed

text \<open>
  The theorem at sixteen random bytes \<open>0xab\<close>.
\<close>

theorem mnemonic_round_trip_witness:
  "bip39_contract stub_libs \<and> length (replicate 16 (171 :: byte)) = 16 \<and>
   (\<exists>w. newRevAddress stub_libs (replicate 16 171) = Inr w \<and>
      mnemonic w = Some ''abababababababababababababababab'' \<and>
      revAddressFromMnemonic stub_libs ''abababababababababababababababab'' = Inr w)"
proof -
  obtain w where w: "newRevAddress stub_libs (replicate 16 171) = Inr w"
    by (simp add: newRevAddress_def privKeyFromMnemonic_stub)
  have g: "bip39_generateMnemonic stub_libs (replicate 16 171) = ''abababababababababababababababab''"
    by (simp add: stub_libs_def encodeBase16_def hex_char_def hex_digits_def replicate_num)
  have "mnemonic w = Some ''abababababababababababababababab''"
    using w g getAddrFromPrivateKey_shape [of stub_libs key_one]
    by (cases "getAddrFromPrivateKey stub_libs key_one")
       (auto simp: newRevAddress_def privKeyFromMnemonic_stub spread_opt_def spread_def over_def
          no_fields_def)
  with mnemonic_round_trip [OF bip39_contract_stub _ w] w bip39_contract_stub
  show ?thesis by auto
qed

lemma spread_tag_priv:
  assumes "getAddrFromPrivateKey L v = Some r"
  shows "spread (no_fields\<lparr>privKey := Some x\<rparr>) r = r\<lparr>privKey := Some x\<rparr>"
  using getAddrFromPrivateKey_shape [OF assms]
  by (auto simp: spread_def over_def no_fields_def)

lemma spread_tag_pub:
  assumes "getAddrFromPublicKey L v = Some r"
  shows "spread (no_fields\<lparr>pubKey := Some x\<rparr>) r = r\<lparr>pubKey := Some x\<rparr>"
  using getAddrFromPublicKey_shape [OF assms]
  by (auto simp: spread_def over_def no_fields_def)


lemma is_lower_hex_slice_last: "is_lower_hex (slice_last k (keccak256 L bs))"
  by (simp add: slice_last_def keccak256_def is_lower_hex_drop is_lower_hex_encodeBase16)

lemma public_hex_ok:
  assumes "getAddrFromPublicKey L s = Some r"
  shows "privKey r = None \<and> pubKey r = None \<and> lower_hex_opt (ethAddr r)"
  using getAddrFromPublicKey_shape [OF assms] is_lower_hex_slice_last
  by (auto simp: lower_hex_opt_def no_fields_def)

lemma private_hex_ok:
  assumes "ec_hex L" and "getAddrFromPrivateKey L s = Some r"
  shows "privKey r = None \<and> lower_hex_opt (pubKey r) \<and> lower_hex_opt (ethAddr r)"
proof -
  from getAddrFromPrivateKey_shape [OF assms(2)] obtain a e where
    r: "r = no_fields\<lparr>revAddr := Some a, ethAddr := Some e, pubKey := Some (ec_getPublic L (strip0x s))\<rparr>"
    and q: "getAddrFromPublicKey L (ec_getPublic L (strip0x s)) =
      Some (no_fields\<lparr>revAddr := Some a, ethAddr := Some e\<rparr>)"
    by blast
  from public_hex_ok [OF q] have "is_lower_hex e"
    by (simp add: lower_hex_opt_def)
  with r assms(1) show ?thesis
    by (simp add: lower_hex_opt_def no_fields_def ec_hex_def)
qed

lemma wallet_hex_ok:
  assumes "ec_hex L"
  shows "derived_hex_ok (spread_opt (no_fields\<lparr>mnemonic := Some m, privKey := Some (encodeBase16 b)\<rparr>)
      (getAddrFromPrivateKey L (encodeBase16 b)))"
proof (cases "getAddrFromPrivateKey L (encodeBase16 b)")
  case None
  then show ?thesis
    by (simp add: derived_hex_ok_def spread_opt_def lower_hex_opt_def no_fields_def
        is_lower_hex_encodeBase16)
next
  case (Some r)
  with private_hex_ok [OF assms Some] show ?thesis
    by (auto simp: derived_hex_ok_def spread_opt_def spread_def over_def lower_hex_opt_def
        no_fields_def is_lower_hex_encodeBase16 split: option.splits)
qed

text \<open>
  Claim C6, amended. Every hex field a result derives (the private key from a mnemonic,
  the public key from a private key, the network address from a public key) is lowercase
  hex without a \<open>0x\<close> prefix. The field of a \<open>parseRevAddress\<close> result that holds the
  caller's value holds the cleaned text in the caller's own case, not lowercased; this
  is stated for cleaned texts that carry no further \<open>0x\<close> prefix. The hex encoding of the
  curve library is assumed to be lowercase.
\<close>

theorem hex_fields_of_results:
  assumes "ec_hex L"
  shows "(getAddrFromPublicKey L s = Some r \<longrightarrow> derived_hex_ok r) \<and>
    (getAddrFromPrivateKey L s = Some r \<longrightarrow> derived_hex_ok r) \<and>
    (newRevAddress L rnd = Inr r \<longrightarrow> derived_hex_ok r) \<and>
    (revAddressFromMnemonic L m = Inr r \<longrightarrow> derived_hex_ok r) \<and>
    (parseRevAddress L t = Some r \<and> strip0x (trim (strip0x t)) = trim (strip0x t) \<longrightarrow>
       tagged_hex_ok (trim (strip0x t)) r)"
proof (intro conjI impI)
  assume "getAddrFromPublicKey L s = Some r"
  from public_hex_ok [OF this] show "derived_hex_ok r"
    by (simp add: derived_hex_ok_def lower_hex_opt_def)
next
  assume "getAddrFromPrivateKey L s = Some r"
  from private_hex_ok [OF assms this] show "derived_hex_ok r"
    by (simp add: derived_hex_ok_def lower_hex_opt_def)
next
  assume "newRevAddress L rnd = Inr r"
  then obtain k where k: "privKeyFromMnemonic L (bip39_generateMnemonic L rnd) = Inr k"
    and r: "r = spread_opt (no_fields\<lparr>mnemonic := Some (bip39_generateMnemonic L rnd), privKey := Some k\<rparr>)
      (getAddrFromPrivateKey L k)"
    by (auto simp: newRevAddress_def Let_def split: sum.splits)
  from privKeyFromMnemonic_cases(2) [OF k] r wallet_hex_ok [OF assms]
  show "derived_hex_ok r" by blast
next
  assume "revAddressFromMnemonic L m = Inr r"
  then obtain k where k: "privKeyFromMnemonic L m = Inr k"
    and r: "r = spread_opt (no_fields\<lparr>mnemonic := Some m, privKey := Some k\<rparr>)
      (getAddrFromPrivateKey L k)"
    by (auto simp: revAddressFromMnemonic_def Let_def split: sum.splits if_splits)
  from privKeyFromMnemonic_cases(2) [OF k] r wallet_hex_ok [OF assms]
  show "derived_hex_ok r" by blast
next
  let ?v = "trim (strip0x t)"
  assume "parseRevAddress L t = Some r \<and> strip0x ?v = ?v"
  then have p: "parseRevAddress L t = Some r" by simp
  show "tagged_hex_ok ?v r"
  proof (cases "verifyRevAddr L ?v")
    case True
    with p show ?thesis
      by (auto simp: parseRevAddress_def Let_def tagged_hex_ok_def no_fields_def)
  next
    case nv: False
    show ?thesis
    proof (cases "getAddrFromPrivateKey L ?v")
      case (Some q)
      with nv p spread_tag_priv [OF Some] private_hex_ok [OF assms Some] show ?thesis
        by (auto simp: parseRevAddress_def Let_def tagged_hex_ok_def)
    next
      case np: None
      show ?thesis
      proof (cases "getAddrFromPublicKey L ?v")
        case (Some q)
        with nv np p spread_tag_pub [OF Some] public_hex_ok [OF Some] show ?thesis
          by (auto simp: parseRevAddress_def Let_def tagged_hex_ok_def)
      next
        case None
        with nv np p show ?thesis
          by (auto simp: parseRevAddress_def Let_def tagged_hex_ok_def no_fields_def
              split: option.splits if_splits)
      qed
    qed
  qed
qed

lemma trim_upper40: "trim (strip0x upper40) = upper40"
  by (simp add: upper40_def trim_def is_ws_def)

lemma upper40_no_address: "decodeBase58safe upper40 = None"
  by (simp add: upper40_def decodeBase58safe_def base58_decode_def b58_alphabet_def)

lemma parse_upper40:
  "\<exists>a. parseRevAddress L upper40 = Some (no_fields\<lparr>ethAddr := Some upper40, revAddr := Some a\<rparr>)"
proof -
  have l: "length (strip0x upper40) = 40" by (simp add: upper40_def)
  from getAddrFromEth_bytes [OF l] obtain a where a: "getAddrFromEth L upper40 = Some a"
    by blast
  have "\<not> verifyRevAddr L upper40"
    by (simp add: verifyRevAddr_def upper40_no_address)
  moreover have "getAddrFromPrivateKey L upper40 = None" "getAddrFromPublicKey L upper40 = None"
    using l by (simp_all add: getAddrFromPrivateKey_def getAddrFromPublicKey_def)
  ultimately show ?thesis
    using a getAddrFromEth_nonempty [OF a]
    by (auto simp: parseRevAddress_def trim_upper40)
qed

text \<open>
  Claim C6 as stated fails: a network address written in uppercase comes back in
  uppercase. The text below is no base58 string, so the result does not depend on the
  digest functions.
\<close>

theorem parse_keeps_uppercase:
  "map_option ethAddr (parseRevAddress stub_libs upper40) = Some (Some upper40) \<and>
   \<not> is_lower_hex upper40"
proof -
  have "\<not> is_lower_hex upper40"
    by (simp add: upper40_def is_lower_hex_def is_lower_hex_char_def hex_digits_def)
  with parse_upper40 [of stub_libs] show ?thesis
    by (auto simp: no_fields_def)
qed

lemma ec_hex_stub: "ec_hex stub_libs"
proof -
  have "is_lower_hex ''04''"
    by (simp add: is_lower_hex_def is_lower_hex_char_def hex_digits_def)
  then have "is_lower_hex (ec_getPublic stub_libs k)" for k
    using is_lower_hex_encodeBase16
    by (simp add: stub_libs_def is_lower_hex_def)
  then show ?thesis by (simp add: ec_hex_def)
qed

text \<open>
  The amended claim at that text and at the private key 1.
\<close>

theorem hex_fields_of_results_witness:
  "ec_hex stub_libs \<and>
   strip0x (trim (strip0x upper40)) = trim (strip0x upper40) \<and>
   (\<exists>r. parseRevAddress stub_libs upper40 = Some r \<and> tagged_hex_ok upper40 r \<and>
      ethAddr r = Some upper40) \<and>
   (\<exists>r. getAddrFromPrivateKey stub_libs key_one = Some r \<and> derived_hex_ok r)"
proof -
  obtain a where p: "parseRevAddress stub_libs upper40 =
      Some (no_fields\<lparr>ethAddr := Some upper40, revAddr := Some a\<rparr>)"
    using parse_upper40 by blast
  have s: "strip0x (trim (strip0x upper40)) = trim (strip0x upper40)"
    by (simp add: trim_upper40) (simp add: upper40_def)
  obtain q where q: "getAddrFromPrivateKey stub_libs key_one = Some q"
    using derived_key_has_address [OF hash_contract_stub ec_contract_stub hd_contract_stub
        privKeyFromMnemonic_stub]
    by blast
  let ?r = "no_fields\<lparr>ethAddr := Some upper40, revAddr := Some a\<rparr>"
  from hex_fields_of_results [OF ec_hex_stub, of key_one q] q
  have "derived_hex_ok q" by blast
  moreover from hex_fields_of_results [OF ec_hex_stub, of _ ?r _ _ upper40]
  have "parseRevAddress stub_libs upper40 = Some ?r \<and>
      strip0x (trim (strip0x upper40)) = trim (strip0x upper40) \<longrightarrow>
      tagged_hex_ok (trim (strip0x upper40)) ?r"
    by blast
  with p s have "tagged_hex_ok (trim (strip0x upper40)) ?r" by blast
  then have "tagged_hex_ok upper40 ?r" by (simp only: trim_upper40)
  ultimately show ?thesis
    using p q s ec_hex_stub by (simp add: no_fields_def)
qed







subsection \<open>Sensitivity of the checksum\<close>
















end
